theory Spec2Isabelle
  imports Main "HOL-Library.Word" "HOL-Library.Signed_Division"
begin

unbundle bit_operations_syntax

section \<open>Machine types, errors and outcomes\<close>

text \<open>
  Go's \<open>byte\<close> is an unsigned 8-bit value and \<open>int64\<close> a two's complement 64-bit
  value: \<open>+\<close> and \<open>-\<close> wrap, comparisons are the signed ones (\<open>\<le>s\<close>, \<open><s\<close>).
  A byte slice is a list of bytes; \<open>int64(len(s))\<close> is \<open>of_nat (length s)\<close>.
\<close>

type_synonym byte = "8 word"
type_synonym int64 = "64 word"

text \<open>
  The error values of the package, \<open>io.EOF\<close>, and whatever error the underlying
  \<open>io.Writer\<close> reports (numbered, since the package never looks inside it).
\<close>

datatype error =
    ErrNewBlockBeforeFinish
  | ErrWriteMoreThanRequested
  | ErrNotEnoughBytes
  | EOF
  | SinkError nat

text \<open>A call either returns or ends in a run-time panic (index or slice bounds, \<open>make\<close>).\<close>

datatype 'a outcome = Panic | Return 'a

text \<open>Sequencing: a panic ends the call, a returned value goes on to the next step.\<close>

fun and_then :: "'a outcome \<Rightarrow> ('a \<Rightarrow> 'b outcome) \<Rightarrow> 'b outcome" where
  "and_then Panic f = Panic"
| "and_then (Return x) f = f x"

text \<open>A nil slice has length 0 and no element.\<close>

fun bytes_of :: "byte list option \<Rightarrow> byte list" where
  "bytes_of None = []"
| "bytes_of (Some bs) = bs"

section \<open>Codec: \<open>fillInt64\<close> and \<open>readInt64\<close>\<close>

text \<open>
  \<^verbatim>\<open>for i := 0; i < 8; i++ { out[i] = byte(n); n >>= 8 }\<close>
  \<open>byte(n)\<close> keeps the low 8 bits, \<open>>>\<close> on a signed value is the arithmetic shift,
  and \<open>out[i]\<close> panics when \<open>i\<close> is not below \<open>len(out)\<close>.
\<close>

function fillInt64_loop :: "nat \<Rightarrow> int64 \<Rightarrow> byte list \<Rightarrow> byte list outcome" where
  "fillInt64_loop i n out =
     (if i < 8
      then (if i < length out
            then fillInt64_loop (i + 1) (signed_drop_bit 8 n) (out[i := ucast n])
            else Panic)
      else Return out)"
  by pat_completeness auto
termination
  by (relation "measure (\<lambda>(i, n, out). 8 - i)") auto

definition fillInt64 :: "int64 \<Rightarrow> byte list \<Rightarrow> byte list outcome" where
  "fillInt64 n out = fillInt64_loop 0 n out"

text \<open>The variant of \<open>byteblock.go\<close> masks first: \<open>out[i] = byte(n & 0xFF)\<close>.\<close>

function fillInt64_loop1 :: "nat \<Rightarrow> int64 \<Rightarrow> byte list \<Rightarrow> byte list outcome" where
  "fillInt64_loop1 i n out =
     (if i < 8
      then (if i < length out
            then fillInt64_loop1 (i + 1) (signed_drop_bit 8 n) (out[i := ucast (n AND 0xFF)])
            else Panic)
      else Return out)"
  by pat_completeness auto
termination
  by (relation "measure (\<lambda>(i, n, out). 8 - i)") auto

definition fillInt64_1 :: "int64 \<Rightarrow> byte list \<Rightarrow> byte list outcome" where
  "fillInt64_1 n out = fillInt64_loop1 0 n out"

text \<open>
  \<^verbatim>\<open>for i := 0; i < 8; i++ { n |= int64(data[i]) << uint(8*i) }\<close>
  \<open>int64(data[i])\<close> zero-extends the byte; \<open>data[i]\<close> panics out of range.
\<close>

function readInt64_loop :: "nat \<Rightarrow> int64 \<Rightarrow> byte list \<Rightarrow> int64 outcome" where
  "readInt64_loop i n data =
     (if i < 8
      then (if i < length data
            then readInt64_loop (i + 1) (n OR push_bit (8 * i) (ucast (data ! i))) data
            else Panic)
      else Return n)"
  by pat_completeness auto
termination
  by (relation "measure (\<lambda>(i, n, data). 8 - i)") auto

definition readInt64 :: "byte list \<Rightarrow> int64 outcome" where
  "readInt64 data = readInt64_loop 0 0 data"

section \<open>Aligner: \<open>alignOffset\<close>\<close>

text \<open>
  Go's \<open>%\<close> truncates towards zero (the sign of the result is the dividend's); it is
  only reached here with a divisor above 1.
\<close>

definition rem64 :: "int64 \<Rightarrow> int64 \<Rightarrow> int64" where
  "rem64 a b = word_of_int (sint a smod sint b)"

definition alignOffset :: "int64 \<Rightarrow> int64 \<Rightarrow> int64" where
  "alignOffset align pos =
     (if align \<le>s 1 then 0
      else let offset = rem64 pos align in
           if offset = 0 then 0 else align - offset)"

section \<open>The sink\<close>

text \<open>
  The writer is bound to an \<open>io.Writer\<close>. Its \<open>Write\<close> method is a parameter of the
  model: from the sink's state and the bytes it returns the count \<open>n\<close>, the error and
  the sink's new state. \<open>buf_write\<close> is \<open>bytes.Buffer\<close>, which appends everything and
  never fails; \<open>full_write\<close> is a sink of bounded capacity that writes what still fits
  and reports a short write.
\<close>

type_synonym 's sink_write = "'s \<Rightarrow> byte list \<Rightarrow> (int64 \<times> error option) \<times> 's"

definition buf_write :: "byte list sink_write" where
  "buf_write s p = ((of_nat (length p), None), s @ p)"

definition full_write :: "nat \<Rightarrow> byte list sink_write" where
  "full_write cap s p =
     (if length s + length p \<le> cap then ((of_nat (length p), None), s @ p)
      else ((of_nat (cap - length s), Some (SinkError 0)), s @ take (cap - length s) p))"

section \<open>Writer with \<open>NewBlock\<close>, \<open>Append\<close> and \<open>Write\<close>\<close>

record 's ByteBlockWriter =
  writer :: 's
  numBytesWritten :: int64
  numBytesLeft :: int64
  err :: "error option"
  stub :: "byte list"

text \<open>The zero value of the struct: counters 0, no error, the stub array of 8 zero bytes.\<close>

definition NewByteBlockWriter :: "'s \<Rightarrow> 's ByteBlockWriter" where
  "NewByteBlockWriter w =
     \<lparr>writer = w, numBytesWritten = 0, numBytesLeft = 0, err = None, stub = replicate 8 0\<rparr>"

definition fillStub :: "'s ByteBlockWriter \<Rightarrow> int64 \<Rightarrow> 's ByteBlockWriter outcome" where
  "fillStub w n =
and_then (fillInt64 n (stub w)) (\<lambda>out. Return (w\<lparr>stub := out\<rparr>))"

definition rawWrite ::
  "'s sink_write \<Rightarrow> 's ByteBlockWriter \<Rightarrow> byte list \<Rightarrow> error option \<times> 's ByteBlockWriter" where
  "rawWrite wr w data =
     (case wr (writer w) data of
        ((n, e), s) \<Rightarrow>
          (e, w\<lparr>writer := s,
                numBytesWritten := numBytesWritten w + n,
                numBytesLeft := numBytesLeft w - n\<rparr>))"

text \<open>\<open>w.err = w.rawWrite(data)\<close>: the call, then the assignment of its result.\<close>

definition rawWrite_err :: "'s sink_write \<Rightarrow> 's ByteBlockWriter \<Rightarrow> byte list \<Rightarrow> 's ByteBlockWriter" where
  "rawWrite_err wr w data = (case rawWrite wr w data of (e, w') \<Rightarrow> w'\<lparr>err := e\<rparr>)"

text \<open>\<open>make([]byte, offset)\<close> panics on a negative length.\<close>

definition make_bytes :: "int64 \<Rightarrow> byte list outcome" where
  "make_bytes n = (if n <s 0 then Panic else Return (replicate (unat n) 0))"

definition NewBlock ::
  "'s sink_write \<Rightarrow> 's ByteBlockWriter \<Rightarrow> int64 \<Rightarrow> int64 \<Rightarrow>
     (error option \<times> 's ByteBlockWriter) outcome" where
  "NewBlock wr w align len =
     (if err w \<noteq> None then Return (err w, w)
      else if 0 <s numBytesLeft w
      then Return (Some ErrNewBlockBeforeFinish, w\<lparr>err := Some ErrNewBlockBeforeFinish\<rparr>)
      else
        and_then (fillStub w len) (\<lambda>w1.
        let w2 = rawWrite_err wr w1 (stub w1) in
        if err w2 \<noteq> None then Return (err w2, w2)
        else
          let offset = alignOffset align (numBytesWritten w2 + 8) in
          and_then (fillStub w2 offset) (\<lambda>w3.
          let w4 = rawWrite_err wr w3 (stub w3) in
          if err w4 \<noteq> None then Return (err w4, w4)
          else
            and_then (make_bytes offset) (\<lambda>padding.
            let w5 = rawWrite_err wr w4 padding in
            if err w5 \<noteq> None then Return (err w5, w5)
            else Return (None, w5\<lparr>numBytesLeft := len\<rparr>)))))"

definition Append ::
  "'s sink_write \<Rightarrow> 's ByteBlockWriter \<Rightarrow> byte list \<Rightarrow> error option \<times> 's ByteBlockWriter" where
  "Append wr w data =
     (if err w \<noteq> None then (err w, w)
      else
        let len = (of_nat (length data) :: int64) in
        if numBytesLeft w <s len
        then (Some ErrWriteMoreThanRequested, w\<lparr>err := Some ErrWriteMoreThanRequested\<rparr>)
        else
          let w1 = rawWrite_err wr w data in
          if err w1 \<noteq> None then (err w1, w1) else (None, w1))"

definition Write ::
  "'s sink_write \<Rightarrow> 's ByteBlockWriter \<Rightarrow> byte list \<Rightarrow> int64 \<Rightarrow>
     (error option \<times> 's ByteBlockWriter) outcome" where
  "Write wr w data align =
     and_then (NewBlock wr w align (of_nat (length data))) (\<lambda>(e, w1).
       let w2 = w1\<lparr>err := e\<rparr> in
       if err w2 \<noteq> None then Return (err w2, w2)
       else
         case Append wr w2 data of
           (e', w3) \<Rightarrow>
             let w4 = w3\<lparr>err := e'\<rparr> in
             if err w4 \<noteq> None then Return (err w4, w4) else Return (None, w4))"

section \<open>The one-shot writer of \<open>byteblock.go\<close>\<close>

text \<open>
  \<open>byteblock.go\<close> declares the same names with a smaller struct (no \<open>numBytesLeft\<close>)
  and a \<open>Write\<close> that emits the whole frame itself; its names carry the suffix 1 here.
\<close>

record 's ByteBlockWriter1 =
  writer1 :: 's
  numBytesWritten1 :: int64
  err1 :: "error option"
  stub1 :: "byte list"

definition NewByteBlockWriter1 :: "'s \<Rightarrow> 's ByteBlockWriter1" where
  "NewByteBlockWriter1 w =
     \<lparr>writer1 = w, numBytesWritten1 = 0, err1 = None, stub1 = replicate 8 0\<rparr>"

definition fillStub1 :: "'s ByteBlockWriter1 \<Rightarrow> int64 \<Rightarrow> 's ByteBlockWriter1 outcome" where
  "fillStub1 w n =
and_then (fillInt64_1 n (stub1 w)) (\<lambda>out. Return (w\<lparr>stub1 := out\<rparr>))"

definition rawWrite1 ::
  "'s sink_write \<Rightarrow> 's ByteBlockWriter1 \<Rightarrow> byte list \<Rightarrow> error option \<times> 's ByteBlockWriter1" where
  "rawWrite1 wr w data =
     (case wr (writer1 w) data of
        ((n, e), s) \<Rightarrow> (e, w\<lparr>writer1 := s, numBytesWritten1 := numBytesWritten1 w + n\<rparr>))"

definition rawWrite1_err :: "'s sink_write \<Rightarrow> 's ByteBlockWriter1 \<Rightarrow> byte list \<Rightarrow> 's ByteBlockWriter1" where
  "rawWrite1_err wr w data = (case rawWrite1 wr w data of (e, w') \<Rightarrow> w'\<lparr>err1 := e\<rparr>)"

definition Write1 ::
  "'s sink_write \<Rightarrow> 's ByteBlockWriter1 \<Rightarrow> byte list \<Rightarrow> int64 \<Rightarrow>
     (error option \<times> 's ByteBlockWriter1) outcome" where
  "Write1 wr w data align =
     (if err1 w \<noteq> None then Return (err1 w, w)
      else
        and_then (fillStub1 w (of_nat (length data))) (\<lambda>w1.
        let w2 = rawWrite1_err wr w1 (stub1 w1) in
        if err1 w2 \<noteq> None then Return (err1 w2, w2)
        else
          let offset = alignOffset align (numBytesWritten1 w2 + 8) in
          and_then (fillStub1 w2 offset) (\<lambda>w3.
          let w4 = rawWrite1_err wr w3 (stub1 w3) in
          if err1 w4 \<noteq> None then Return (err1 w4, w4)
          else
            and_then (make_bytes offset) (\<lambda>padding.
            let w5 = rawWrite1_err wr w4 padding in
            if err1 w5 \<noteq> None then Return (err1 w5, w5)
            else
              let w6 = rawWrite1_err wr w5 data in
              if err1 w6 \<noteq> None then Return (err1 w6, w6) else Return (None, w6)))))"

section \<open>Slicer\<close>

record ByteBlockSlicer =
  data :: "byte list"
  numBytesSliced :: int64
  serr :: "error option"

definition NewByteBlockSlicer :: "byte list \<Rightarrow> ByteBlockSlicer" where
  "NewByteBlockSlicer d = \<lparr>data = d, numBytesSliced = 0, serr = None\<rparr>"

text \<open>
  \<^verbatim>\<open>if r.numBytesSliced+n > int64(len(r.data)) { return nil, ErrNotEnoughBytes }
  data := r.data[r.numBytesSliced : r.numBytesSliced+n]
  r.numBytesSliced += n\<close>
  The slice expression \<open>s[lo:hi]\<close> panics unless \<open>0 \<le> lo \<le> hi \<le> cap(s)\<close>; the
  capacity is at least the length, and the test before it has already bounded \<open>hi\<close> by
  the length, so the length stands for the capacity.
\<close>

definition rawSlice ::
  "ByteBlockSlicer \<Rightarrow> int64 \<Rightarrow> ((byte list option \<times> error option) \<times> ByteBlockSlicer) outcome" where
  "rawSlice r n =
     (let lo = numBytesSliced r; hi = numBytesSliced r + n;
          len = (of_nat (length (data r)) :: int64)
      in if len <s hi then Return ((None, Some ErrNotEnoughBytes), r)
         else if 0 \<le>s lo \<and> lo \<le>s hi \<and> hi \<le>s len
         then Return ((Some (take (unat hi - unat lo) (drop (unat lo) (data r))), None),
                      r\<lparr>numBytesSliced := hi\<rparr>)
         else Panic)"

definition Slice ::
  "ByteBlockSlicer \<Rightarrow> ((byte list option \<times> error option) \<times> ByteBlockSlicer) outcome" where
  "Slice r =
     (if serr r \<noteq> None then Return ((None, serr r), r)
      else if (of_nat (length (data r)) :: int64) \<le>s numBytesSliced r
      then Return ((None, Some EOF), r)
      else
        and_then (rawSlice r 8) (\<lambda>((b, e), r0).
        let r1 = r0\<lparr>serr := e\<rparr> in
        if serr r1 \<noteq> None then Return ((None, serr r1), r1)
        else
          and_then (readInt64 (bytes_of b)) (\<lambda>len.
          and_then (rawSlice r1 8) (\<lambda>((b', e'), r2).
          let r3 = r2\<lparr>serr := e'\<rparr> in
          if serr r3 \<noteq> None then Return ((None, serr r3), r3)
          else
            and_then (readInt64 (bytes_of b')) (\<lambda>offset.
            and_then (rawSlice r3 offset) (\<lambda>((b'', e''), r4).
            let r5 = r4\<lparr>serr := e''\<rparr> in
            if serr r5 \<noteq> None then Return ((None, serr r5), r5)
            else rawSlice r5 len))))))"

section \<open>Auxiliary definitions for the statements\<close>

text \<open>
  The eight bytes of a 64-bit value, least significant first: what \<open>fillInt64\<close> leaves in
  an 8-byte array, and the part of the value that byte \<open>i\<close> carries.
\<close>

definition le_bytes :: "int64 \<Rightarrow> byte list" where
  "le_bytes n = map (\<lambda>i. ucast (signed_drop_bit (8 * i) n)) [0..<8]"

definition byte_at :: "nat \<Rightarrow> int64 \<Rightarrow> int64" where
  "byte_at i n = push_bit (8 * i) (ucast (ucast (signed_drop_bit (8 * i) n) :: byte))"

text \<open>
  The sink takes the whole slice: it reports \<open>len(p)\<close> bytes and no error. The contract
  of \<open>io.Writer\<close>: a write that reports no error has written all of \<open>p\<close>.
\<close>

definition accepts :: "'s sink_write \<Rightarrow> 's \<Rightarrow> byte list \<Rightarrow> 's \<Rightarrow> bool" where
  "accepts wr s p s' \<longleftrightarrow> wr s p = ((of_nat (length p), None), s')"

definition honours_contract :: "'s sink_write \<Rightarrow> bool" where
  "honours_contract wr \<longleftrightarrow> (\<forall>s p n s'. wr s p = ((n, None), s') \<longrightarrow> n = of_nat (length p))"

text \<open>The one-shot writer's view of a writer state: the same fields without \<open>numBytesLeft\<close>.\<close>

definition forget :: "'s ByteBlockWriter \<Rightarrow> 's ByteBlockWriter1" where
  "forget w = \<lparr>writer1 = writer w, numBytesWritten1 = numBytesWritten w,
                err1 = err w, stub1 = stub w\<rparr>"

text \<open>
  A caller's loop over \<open>(payload, align)\<close> pairs, as in the package's tests:
  \<^verbatim>\<open>for _, i := range data { err := writer.Write(i.Data, i.Align); ... }\<close>
  It calls \<open>Write\<close> for every pair and collects the returned errors.
\<close>

fun WriteAll ::
  "'s sink_write \<Rightarrow> 's ByteBlockWriter \<Rightarrow> (byte list \<times> int64) list \<Rightarrow>
     (error option list \<times> 's ByteBlockWriter) outcome" where
  "WriteAll wr w [] = Return ([], w)"
| "WriteAll wr w (x # xs) =
     and_then (Write wr w (fst x) (snd x)) (\<lambda>r.
     and_then (WriteAll wr (snd r) xs) (\<lambda>rs. Return (fst r # fst rs, snd rs)))"

fun WriteAll1 ::
  "'s sink_write \<Rightarrow> 's ByteBlockWriter1 \<Rightarrow> (byte list \<times> int64) list \<Rightarrow>
     (error option list \<times> 's ByteBlockWriter1) outcome" where
  "WriteAll1 wr w [] = Return ([], w)"
| "WriteAll1 wr w (x # xs) =
     and_then (Write1 wr w (fst x) (snd x)) (\<lambda>r.
     and_then (WriteAll1 wr (snd r) xs) (\<lambda>rs. Return (fst r # fst rs, snd rs)))"

text \<open>Any sequence of the writer's three operations; the returned errors stay latched.\<close>

datatype wop = OpNewBlock int64 int64 | OpAppend "byte list" | OpWrite "byte list" int64

fun apply_op :: "'s sink_write \<Rightarrow> 's ByteBlockWriter \<Rightarrow> wop \<Rightarrow> 's ByteBlockWriter outcome" where
  "apply_op wr w (OpNewBlock align len) = map_outcome snd (NewBlock wr w align len)"
| "apply_op wr w (OpAppend chunk) = Return (snd (Append wr w chunk))"
| "apply_op wr w (OpWrite d align) = map_outcome snd (Write wr w d align)"

fun run_ops :: "'s sink_write \<Rightarrow> 's ByteBlockWriter \<Rightarrow> wop list \<Rightarrow> 's ByteBlockWriter outcome" where
  "run_ops wr w [] = Return w"
| "run_ops wr w (x # xs) = and_then (apply_op wr w x) (\<lambda>w'. run_ops wr w' xs)"

text \<open>\<open>n\<close> consecutive calls of \<open>Slice\<close>, with what each returned.\<close>

fun SliceN ::
  "nat \<Rightarrow> ByteBlockSlicer \<Rightarrow>
     ((byte list option \<times> error option) list \<times> ByteBlockSlicer) outcome" where
  "SliceN 0 r = Return ([], r)"
| "SliceN (Suc n) r =
     and_then (Slice r) (\<lambda>x.
     and_then (SliceN n (snd x)) (\<lambda>xs. Return (fst x # fst xs, snd xs)))"

text \<open>
  The frame of the data model at stream position \<open>pos\<close>: length, offset, padding,
  payload; and the stream of frames for a list of \<open>(payload, align)\<close> pairs, with the
  positions at which its frames begin and end.
\<close>

definition frame :: "nat \<Rightarrow> byte list \<Rightarrow> int64 \<Rightarrow> byte list" where
  "frame pos d align =
     (let offset = alignOffset align (of_nat pos + 16)
      in le_bytes (of_nat (length d)) @ le_bytes offset @ replicate (unat offset) 0 @ d)"

fun frames :: "nat \<Rightarrow> (byte list \<times> int64) list \<Rightarrow> byte list" where
  "frames pos [] = []"
| "frames pos (x # xs) =
     frame pos (fst x) (snd x) @ frames (pos + length (frame pos (fst x) (snd x))) xs"

fun boundaries :: "nat \<Rightarrow> (byte list \<times> int64) list \<Rightarrow> nat list" where
  "boundaries pos [] = [pos]"
| "boundaries pos (x # xs) = pos # boundaries (pos + length (frame pos (fst x) (snd x))) xs"

declare fillInt64_loop.simps [simp del]
declare fillInt64_loop1.simps [simp del]
declare readInt64_loop.simps [simp del]

section \<open>Codec\<close>

lemma le_bytes_unfold:
  "le_bytes n = [ucast n, ucast (signed_drop_bit 8 n), ucast (signed_drop_bit 16 n),
     ucast (signed_drop_bit 24 n), ucast (signed_drop_bit 32 n), ucast (signed_drop_bit 40 n),
     ucast (signed_drop_bit 48 n), ucast (signed_drop_bit 56 n)]"
  by (simp add: le_bytes_def upt_rec)

lemma length_le_bytes [simp]: "length (le_bytes n) = 8"
  by (simp add: le_bytes_def)

lemma low_byte_mask: "(ucast (n AND 0xFF :: int64) :: byte) = ucast n"
proof -
  have m: "(0xFF :: int64) = mask 8"
    by (simp add: mask_eq_exp_minus_1)
  show ?thesis
    unfolding m by (rule bit_word_eqI) (auto simp: bit_simps)
qed

lemma bit_byte_at:
  "i < 8 \<Longrightarrow> bit (byte_at i n) k \<longleftrightarrow> 8 * i \<le> k \<and> k < 8 * i + 8 \<and> bit n k"
  unfolding byte_at_def
  by (auto simp add: bit_simps dest: bit_imp_le_length)

lemma bytes_join:
  "byte_at 0 n OR byte_at 1 n OR byte_at 2 n OR byte_at 3 n OR byte_at 4 n
     OR byte_at 5 n OR byte_at 6 n OR byte_at 7 n = n"
proof (rule bit_word_eqI)
  fix k assume "k < LENGTH(64)"
  then have "k < 64" by simp
  then have "k < 8 \<or> (8 \<le> k \<and> k < 16) \<or> (16 \<le> k \<and> k < 24) \<or> (24 \<le> k \<and> k < 32)
     \<or> (32 \<le> k \<and> k < 40) \<or> (40 \<le> k \<and> k < 48) \<or> (48 \<le> k \<and> k < 56) \<or> (56 \<le> k \<and> k < 64)"
    by arith
  then show "bit (byte_at 0 n OR byte_at 1 n OR byte_at 2 n OR byte_at 3 n OR byte_at 4 n
    OR byte_at 5 n OR byte_at 6 n OR byte_at 7 n) k = bit n k"
    by (auto simp add: bit_or_iff bit_byte_at)
qed

lemma readInt64_le_bytes: "readInt64 (le_bytes n) = Return n"
  unfolding readInt64_def le_bytes_unfold
  using bytes_join [of n]
  by (simp add: readInt64_loop.simps byte_at_def or.assoc)

lemma list8:
  "length (out :: 'a list) = 8 \<Longrightarrow> \<exists>a b c d e f g h. out = [a, b, c, d, e, f, g, h]"
  by (auto simp: eval_nat_numeral length_Suc_conv)

lemma fillInt64_eq: "length out = 8 \<Longrightarrow> fillInt64 n out = Return (le_bytes n)"
proof -
  assume "length out = 8"
  then obtain a b c d e f g h where o: "out = [a, b, c, d, e, f, g, h]"
    using list8 by blast
  show ?thesis
    unfolding o fillInt64_def le_bytes_unfold by (simp add: fillInt64_loop.simps)
qed

lemma fillInt64_1_eq: "length out = 8 \<Longrightarrow> fillInt64_1 n out = Return (le_bytes n)"
proof -
  assume "length out = 8"
  then obtain a b c d e f g h where o: "out = [a, b, c, d, e, f, g, h]"
    using list8 by blast
  show ?thesis
    unfolding o fillInt64_1_def le_bytes_unfold
    by (simp add: fillInt64_loop1.simps low_byte_mask)
qed

text \<open>
  C7 (codec inverse law). For every 64-bit value \<open>n\<close> (zero, negative, high bit set or
  not), filling an 8-byte array with \<open>fillInt64\<close> and reading it back with \<open>readInt64\<close>
  returns \<open>n\<close>, and neither call panics.
\<close>

theorem codec_inverse:
  "length out = 8 \<Longrightarrow> and_then (fillInt64 n out) readInt64 = Return n"
  by (simp add: fillInt64_eq readInt64_le_bytes)

theorem codec_inverse_witness:
  "length (replicate 8 (0::byte)) = 8 \<and>
   and_then (fillInt64 (- 2) (replicate 8 0)) readInt64 = Return (- 2)"
  using codec_inverse [of "replicate 8 0" "- 2"] by simp

section \<open>Signed 64-bit arithmetic without overflow\<close>

lemma sint_range64: "- (2 ^ 63) \<le> sint (w :: int64)" "sint (w :: int64) < 2 ^ 63"
  using sint_ge [of w] sint_lt [of w] by simp_all

lemma sint_i64: "- (2 ^ 63) \<le> x \<Longrightarrow> x < 2 ^ 63 \<Longrightarrow> sint (word_of_int x :: int64) = x"
  by (simp add: sint_sbintrunc' signed_take_bit_int_eq_self)

lemma sint_of_nat64: "n < 2 ^ 63 \<Longrightarrow> sint (of_nat n :: int64) = int n"
  using sint_i64 [of "int n"] by simp

lemma sint_add64:
  "- (2 ^ 63) \<le> sint a + sint b \<Longrightarrow> sint a + sint b < 2 ^ 63 \<Longrightarrow>
   sint (a + b :: int64) = sint a + sint b"
  by (simp add: sint_word_add signed_take_bit_int_eq_self)

lemma sint_sub64:
  "- (2 ^ 63) \<le> sint a - sint b \<Longrightarrow> sint a - sint b < 2 ^ 63 \<Longrightarrow>
   sint (a - b :: int64) = sint a - sint b"
  by (simp add: sint_word_diff signed_take_bit_int_eq_self)

section \<open>Aligner\<close>

lemma sint_rem64_nonneg:
  assumes "0 \<le> sint pos" "1 < sint align"
  shows "sint (rem64 pos align) = sint pos mod sint align"
proof -
  have e: "sint pos smod sint align = sint pos mod sint align"
    using assms by (simp add: smod_int_alt_def sgn_if)
  have "0 \<le> sint pos mod sint align" "sint pos mod sint align < sint align"
    using assms by simp_all
  then show ?thesis
    unfolding rem64_def e using sint_range64 [of align] by (intro sint_i64) linarith+
qed

text \<open>On a non-negative position the code computes the padding formula of the design.\<close>

lemma sint_alignOffset:
  assumes "0 \<le> sint pos" "1 < sint align"
  shows "sint (alignOffset align pos) = (sint align - sint pos mod sint align) mod sint align"
proof -
  let ?r = "sint pos mod sint align"
  have r: "0 \<le> ?r" "?r < sint align"
    using assms by simp_all
  have na: "\<not> align \<le>s 1"
    using assms by (simp add: word_sle_eq)
  have sr: "sint (rem64 pos align) = ?r"
    using assms by (rule sint_rem64_nonneg)
  show ?thesis
  proof (cases "rem64 pos align = 0")
    case True
    then have "?r = 0" using sr by simp
    then show ?thesis using na True by (simp add: alignOffset_def)
  next
    case False
    then have "?r \<noteq> 0" using sr by (metis sint_0 signed_word_eqI)
    then have pos: "0 < ?r" using r by linarith
    have "sint (align - rem64 pos align) = sint align - ?r"
      using sint_sub64 [of align "rem64 pos align"] sr r sint_range64 [of align] by simp
    moreover have "(sint align - ?r) mod sint align = sint align - ?r"
      using r pos by (intro mod_pos_pos_trivial) linarith+
    ultimately show ?thesis using na False by (simp add: alignOffset_def Let_def)
  qed
qed

lemma align_sum_mod:
  fixes p a :: int
  shows "(p + (a - p mod a) mod a) mod a = 0"
proof -
  have e: "p + (a - p mod a) = a * (p div a) + a"
    using minus_mod_eq_mult_div [of p a] by linarith
  have "(p + (a - p mod a)) mod a = (a * (p div a) + a) mod a"
    using e by (rule arg_cong)
  then have "(p + (a - p mod a)) mod a = 0"
    by simp
  then show ?thesis
    by (simp add: mod_add_right_eq)
qed

lemma alignOffset_le1: "align \<le>s 1 \<Longrightarrow> alignOffset align pos = 0"
  by (simp add: alignOffset_def)

lemma alignOffset_nonneg: "0 \<le>s pos \<Longrightarrow> 0 \<le>s alignOffset align pos"
proof (cases "align \<le>s 1")
  case True
  then show ?thesis by (simp add: alignOffset_le1)
next
  case False
  assume "0 \<le>s pos"
  then have p: "0 \<le> sint pos" by (simp add: word_sle_eq)
  from False have a: "1 < sint align" by (simp add: word_sle_eq)
  show ?thesis using a by (simp add: word_sle_eq sint_alignOffset [OF p a])
qed

text \<open>
  C8 as stated (aligner boundary law for every position) does not hold: Go's \<open>%\<close> gives a
  negative remainder on a negative position, so \<open>alignOffset(4, -1)\<close> is 5, outside
  \<open>[0, 4)\<close>.
\<close>

theorem alignOffset_negative_pos_counterexample:
  "1 <s (4::int64) \<and> \<not> alignOffset 4 (- 1) <s 4"
  by code_simp

text \<open>
  C8, amended to non-negative positions (the writer only passes byte counts plus 16).
  For every \<open>align\<close>: \<open>alignOffset\<close> returns 0 when \<open>align \<le> 1\<close> (at every position);
  when \<open>align > 1\<close> and \<open>pos \<ge> 0\<close> the result lies in \<open>[0, align)\<close> and
  \<open>pos\<close> plus the result, as integers, is a multiple of \<open>align\<close>.
\<close>

theorem alignOffset_law:
  "(align \<le>s 1 \<longrightarrow> alignOffset align pos = 0) \<and>
   (1 <s align \<and> 0 \<le>s pos \<longrightarrow>
      0 \<le>s alignOffset align pos \<and> alignOffset align pos <s align \<and>
      (sint pos + sint (alignOffset align pos)) mod sint align = 0)"
proof (intro conjI impI)
  assume "align \<le>s 1"
  then show "alignOffset align pos = 0" by (rule alignOffset_le1)
next
  assume h: "1 <s align \<and> 0 \<le>s pos"
  then have a: "1 < sint align" and p: "0 \<le> sint pos"
    by (simp_all add: word_sless_alt word_sle_eq)
  note s = sint_alignOffset [OF p a]
  show "0 \<le>s alignOffset align pos" using a by (simp add: word_sle_eq s)
  show "alignOffset align pos <s align" using a by (simp add: word_sless_alt s)
  show "(sint pos + sint (alignOffset align pos)) mod sint align = 0"
    unfolding s by (rule align_sum_mod)
qed

theorem alignOffset_law_witness:
  "0 \<le>s alignOffset 4 5 \<and> alignOffset 4 5 <s 4 \<and>
   (sint (5::int64) + sint (alignOffset 4 5)) mod sint (4::int64) = 0"
proof -
  have h: "1 <s (4::int64) \<and> 0 \<le>s (5::int64)" by code_simp
  show ?thesis using alignOffset_law [of 4 5] h by blast
qed

section \<open>Writer: single operations\<close>

lemma fillStub_eq: "length (stub w) = 8 \<Longrightarrow> fillStub w n = Return (w\<lparr>stub := le_bytes n\<rparr>)"
  by (simp add: fillStub_def fillInt64_eq)

lemma fillStub1_eq: "length (stub1 w) = 8 \<Longrightarrow> fillStub1 w n = Return (w\<lparr>stub1 := le_bytes n\<rparr>)"
  by (simp add: fillStub1_def fillInt64_1_eq)

lemma rawWrite_err_accepts:
  "accepts wr (writer w) p s' \<Longrightarrow>
   rawWrite_err wr w p =
     w\<lparr>writer := s', numBytesWritten := numBytesWritten w + of_nat (length p),
       numBytesLeft := numBytesLeft w - of_nat (length p), err := None\<rparr>"
  by (simp add: accepts_def rawWrite_err_def rawWrite_def)

lemma make_bytes_nonneg: "0 \<le>s n \<Longrightarrow> make_bytes n = Return (replicate (unat n) 0)"
  by (simp add: make_bytes_def word_sle_eq word_sless_alt)

text \<open>
  C5 (\<open>NewBlock\<close>). On a writer with no latched error: while the previous block still
  has bytes left (\<open>numBytesLeft > 0\<close>) the call fails with \<open>ErrNewBlockBeforeFinish\<close>,
  latches it and leaves the sink untouched; otherwise, on a sink that takes the three
  writes, it writes the 8 bytes of \<open>len\<close>, the 8 bytes of the offset and that many zero
  bytes, sets \<open>numBytesLeft\<close> to \<open>len\<close> and returns no error. The offset is
  \<open>alignOffset\<close> at the position after the 16-byte header.
\<close>

theorem NewBlock_spec:
  assumes "err w = None" and "length (stub w) = 8"
  shows "(0 <s numBytesLeft w \<longrightarrow>
            NewBlock wr w align len =
              Return (Some ErrNewBlockBeforeFinish, w\<lparr>err := Some ErrNewBlockBeforeFinish\<rparr>)) \<and>
         (\<not> 0 <s numBytesLeft w \<and> 0 \<le>s numBytesWritten w + 16 \<and>
          accepts wr (writer w) (le_bytes len) s1 \<and>
          accepts wr s1 (le_bytes (alignOffset align (numBytesWritten w + 16))) s2 \<and>
          accepts wr s2 (replicate (unat (alignOffset align (numBytesWritten w + 16))) 0) s3 \<longrightarrow>
            NewBlock wr w align len =
              Return (None,
                w\<lparr>writer := s3,
                  numBytesWritten :=
                    numBytesWritten w + 16 + alignOffset align (numBytesWritten w + 16),
                  numBytesLeft := len,
                  stub := le_bytes (alignOffset align (numBytesWritten w + 16))\<rparr>))"
proof (intro conjI impI)
  assume "0 <s numBytesLeft w"
  then show "NewBlock wr w align len =
      Return (Some ErrNewBlockBeforeFinish, w\<lparr>err := Some ErrNewBlockBeforeFinish\<rparr>)"
    using assms by (simp add: NewBlock_def)
next
  let ?off = "alignOffset align (numBytesWritten w + 16)"
  assume h: "\<not> 0 <s numBytesLeft w \<and> 0 \<le>s numBytesWritten w + 16 \<and>
          accepts wr (writer w) (le_bytes len) s1 \<and>
          accepts wr s1 (le_bytes ?off) s2 \<and>
          accepts wr s2 (replicate (unat ?off) 0) s3"
  have off: "0 \<le>s ?off" using h by (simp add: alignOffset_nonneg)
  have e: "numBytesWritten w + 8 + 8 = numBytesWritten w + 16" by simp
  show "NewBlock wr w align len =
      Return (None, w\<lparr>writer := s3, numBytesWritten := numBytesWritten w + 16 + ?off,
                  numBytesLeft := len, stub := le_bytes ?off\<rparr>)"
    using assms h off
    by (simp add: NewBlock_def fillStub_eq rawWrite_err_def rawWrite_def accepts_def
        make_bytes_nonneg e Let_def)
qed


lemma sle_numerals: "0 \<le>s (16::int64)" "\<not> 0 <s (0::int64)" "0 <s (1::int64)" "0 <s (2::int64)"
  "\<not> (1::int64) <s 1" "(1::int64) <s 2" "\<not> (2::int64) <s 1" "0 \<le>s (0::int64)" "0 \<le>s (5::int64)"
  by (simp_all add: word_sle_eq word_sless_alt)

lemma alignOffset_7_16: "alignOffset 7 16 = 5"
  by code_simp

theorem NewBlock_spec_witness:
  "NewBlock buf_write (NewByteBlockWriter []) 7 1 =
     Return (None,
       \<lparr>writer = le_bytes 1 @ le_bytes 5 @ replicate 5 0, numBytesWritten = 21,
         numBytesLeft = 1, err = None, stub = le_bytes 5\<rparr>) \<and>
   NewBlock buf_write
       \<lparr>writer = le_bytes 1 @ le_bytes 5 @ replicate 5 0, numBytesWritten = 21,
         numBytesLeft = 1, err = None, stub = le_bytes 5\<rparr> 0 1 =
     Return (Some ErrNewBlockBeforeFinish,
       \<lparr>writer = le_bytes 1 @ le_bytes 5 @ replicate 5 0, numBytesWritten = 21,
         numBytesLeft = 1, err = Some ErrNewBlockBeforeFinish, stub = le_bytes 5\<rparr>)"
proof -
  let ?w = "NewByteBlockWriter ([] :: byte list)"
  let ?w' = "\<lparr>writer = le_bytes 1 @ le_bytes 5 @ replicate 5 (0::byte), numBytesWritten = 21,
         numBytesLeft = 1, err = None, stub = le_bytes 5\<rparr>"
  have 1: "err ?w = None" "length (stub ?w) = 8" "\<not> 0 <s numBytesLeft ?w"
    "0 \<le>s numBytesWritten ?w + 16" "alignOffset 7 (numBytesWritten ?w + 16) = 5"
    by (simp_all add: NewByteBlockWriter_def sle_numerals alignOffset_7_16)
  have 2: "accepts buf_write (writer ?w) (le_bytes 1) (le_bytes 1)"
    "accepts buf_write (le_bytes 1) (le_bytes 5) (le_bytes 1 @ le_bytes 5)"
    "accepts buf_write (le_bytes 1 @ le_bytes 5) (replicate 5 0) (le_bytes 1 @ le_bytes 5 @ replicate 5 0)"
    by (simp_all add: accepts_def buf_write_def NewByteBlockWriter_def)
  have 3: "err ?w' = None" "length (stub ?w') = 8" "0 <s numBytesLeft ?w'"
    by (simp_all add: sle_numerals)
  show ?thesis
    using NewBlock_spec [where w = ?w and wr = buf_write and align = 7 and len = 1
        and ?s1.0 = "le_bytes 1" and ?s2.0 = "le_bytes 1 @ le_bytes 5"
        and ?s3.0 = "le_bytes 1 @ le_bytes 5 @ replicate 5 0"]
      NewBlock_spec [where w = ?w' and wr = buf_write and align = 0 and len = 1] 1 2 3
    by (simp add: NewByteBlockWriter_def)
qed

text \<open>
  C6 (\<open>Append\<close>). On a writer with no latched error: a chunk longer than
  \<open>numBytesLeft\<close> fails with \<open>ErrWriteMoreThanRequested\<close>, latched, with the sink
  untouched; otherwise the chunk goes to the sink as it is and, when the sink takes it,
  \<open>numBytesLeft\<close> drops by its length. In particular a block of declared length 2,
  a 1-byte chunk and then a 2-byte chunk: the second \<open>Append\<close> fails with
  \<open>ErrWriteMoreThanRequested\<close> and writes nothing.
\<close>

theorem Append_spec:
  assumes "err w = None"
  shows "(numBytesLeft w <s of_nat (length chunk) \<longrightarrow>
            Append wr w chunk =
              (Some ErrWriteMoreThanRequested, w\<lparr>err := Some ErrWriteMoreThanRequested\<rparr>)) \<and>
         (\<not> numBytesLeft w <s of_nat (length chunk) \<and> accepts wr (writer w) chunk s' \<longrightarrow>
            Append wr w chunk =
              (None,
               w\<lparr>writer := s',
                 numBytesWritten := numBytesWritten w + of_nat (length chunk),
                 numBytesLeft := numBytesLeft w - of_nat (length chunk)\<rparr>)) \<and>
         (\<exists>w1 w2 w3.
            NewBlock buf_write (NewByteBlockWriter []) 0 2 = Return (None, w1) \<and>
            Append buf_write w1 [a] = (None, w2) \<and>
            Append buf_write w2 [b, c] = (Some ErrWriteMoreThanRequested, w3) \<and>
            writer w3 = writer w2)"
proof (intro conjI impI)
  assume "numBytesLeft w <s of_nat (length chunk)"
  then show "Append wr w chunk =
      (Some ErrWriteMoreThanRequested, w\<lparr>err := Some ErrWriteMoreThanRequested\<rparr>)"
    using assms by (simp add: Append_def)
next
  assume "\<not> numBytesLeft w <s of_nat (length chunk) \<and> accepts wr (writer w) chunk s'"
  then show "Append wr w chunk =
      (None, w\<lparr>writer := s', numBytesWritten := numBytesWritten w + of_nat (length chunk),
                 numBytesLeft := numBytesLeft w - of_nat (length chunk)\<rparr>)"
    using assms by (simp add: Append_def rawWrite_err_def rawWrite_def accepts_def Let_def)
next
  have z: "alignOffset 0 16 = 0" by (simp add: alignOffset_le1 word_sle_eq)
  show "\<exists>w1 w2 w3.
            NewBlock buf_write (NewByteBlockWriter []) 0 2 = Return (None, w1) \<and>
            Append buf_write w1 [a] = (None, w2) \<and>
            Append buf_write w2 [b, c] = (Some ErrWriteMoreThanRequested, w3) \<and>
            writer w3 = writer w2"
    by (simp add: NewBlock_def NewByteBlockWriter_def fillStub_eq rawWrite_err_def rawWrite_def
        buf_write_def make_bytes_def Append_def z Let_def word_sless_alt)
qed


theorem Append_spec_witness:
  "Append buf_write
      \<lparr>writer = [], numBytesWritten = 0, numBytesLeft = 2, err = None, stub = replicate 8 0\<rparr> [7] =
     (None, \<lparr>writer = [7], numBytesWritten = 1, numBytesLeft = 1, err = None,
              stub = replicate 8 0\<rparr>) \<and>
   Append buf_write
      \<lparr>writer = [7], numBytesWritten = 1, numBytesLeft = 1, err = None, stub = replicate 8 0\<rparr>
      [1, 2] =
     (Some ErrWriteMoreThanRequested,
      \<lparr>writer = [7], numBytesWritten = 1, numBytesLeft = 1,
        err = Some ErrWriteMoreThanRequested, stub = replicate 8 0\<rparr>)"
proof -
  let ?w = "\<lparr>writer = ([] :: byte list), numBytesWritten = 0, numBytesLeft = 2, err = None,
              stub = replicate 8 0\<rparr>"
  let ?w' = "\<lparr>writer = [7 :: byte], numBytesWritten = 1, numBytesLeft = 1, err = None,
              stub = replicate 8 0\<rparr>"
  have 1: "err ?w = None" "\<not> numBytesLeft ?w <s of_nat (length [7 :: byte])"
    "accepts buf_write (writer ?w) [7] [7]"
    by (simp_all add: accepts_def buf_write_def sle_numerals)
  have 2: "err ?w' = None" "numBytesLeft ?w' <s of_nat (length [1, 2 :: byte])"
    by (simp_all add: sle_numerals)
  show ?thesis
    using Append_spec [where w = ?w and wr = buf_write and chunk = "[7]" and s' = "[7]"]
      Append_spec [where w = ?w' and wr = buf_write and chunk = "[1, 2]"] 1 2
    by simp
qed

lemma and_then_Return_iff:
  "and_then m f = Return y \<longleftrightarrow> (\<exists>x. m = Return x \<and> f x = Return y)"
  by (cases m) simp_all

lemma and_then_Panic_iff:
  "and_then m f = Panic \<longleftrightarrow> m = Panic \<or> (\<exists>x. m = Return x \<and> f x = Panic)"
  by (cases m) simp_all

lemma NewBlock_err: "NewBlock wr w align len = Return (e, w') \<Longrightarrow> err w' = e"
  by (auto simp: NewBlock_def Let_def and_then_Return_iff split: if_splits)

lemma Append_err: "Append wr w d = (e, w') \<Longrightarrow> err w' = e"
  by (auto simp: Append_def Let_def split: if_splits)

lemma Append_latched: "err w \<noteq> None \<Longrightarrow> Append wr w d = (err w, w)"
  by (simp add: Append_def)

lemma NewBlock_latched: "err w \<noteq> None \<Longrightarrow> NewBlock wr w align len = Return (err w, w)"
  by (simp add: NewBlock_def)

lemma Write_NewBlock_Append:
  "Write wr w d a =
     and_then (NewBlock wr w a (of_nat (length d))) (\<lambda>r. Return (Append wr (snd r) d))"
proof (cases "NewBlock wr w a (of_nat (length d))")
  case Panic
  then show ?thesis by (simp add: Write_def)
next
  case (Return r)
  obtain e w1 where r: "r = (e, w1)" by (cases r)
  have e: "err w1 = e" using Return r by (simp add: NewBlock_err)
  then have u: "w1\<lparr>err := e\<rparr> = w1" by simp
  show ?thesis
  proof (cases "e = None")
    case False
    then show ?thesis using Return r e u by (simp add: Write_def Append_latched)
  next
    case True
    obtain e' w3 where a: "Append wr w1 d = (e', w3)" by (cases "Append wr w1 d")
    then have "err w3 = e'" by (rule Append_err)
    then have u3: "w3\<lparr>err := e'\<rparr> = w3" by simp
    have u1: "w1\<lparr>err := None\<rparr> = w1" using e True by simp
    show ?thesis
      using \<open>err w3 = e'\<close> by (simp add: Write_def Return r True u1 a u3)
  qed
qed

section \<open>One-shot and incremental writing\<close>

lemma fillInt64_loop1_eq: "fillInt64_loop1 i n out = fillInt64_loop i n out"
proof (induction i n out rule: fillInt64_loop.induct)
  case (1 i n out)
  show ?case
  proof (cases "i < 8 \<and> i < length out")
    case True
    then show ?thesis
      using 1 by (subst fillInt64_loop1.simps, subst fillInt64_loop.simps) (simp add: low_byte_mask)
  next
    case False
    then show ?thesis
      by (subst fillInt64_loop1.simps, subst fillInt64_loop.simps) auto
  qed
qed

lemma fillStub1_forget: "fillStub1 (forget w) n = map_outcome forget (fillStub w n)"
proof -
  have "fillInt64_1 n (stub w) = fillInt64 n (stub w)"
    by (simp add: fillInt64_1_def fillInt64_def fillInt64_loop1_eq)
  then show ?thesis
    by (cases "fillInt64 n (stub w)") (simp_all add: fillStub1_def fillStub_def forget_def)
qed

lemma rawWrite1_err_forget: "rawWrite1_err wr (forget w) p = forget (rawWrite_err wr w p)"
  by (simp add: rawWrite1_err_def rawWrite1_def rawWrite_err_def rawWrite_def forget_def
      split: prod.splits)

lemma forget_simps [simp]:
  "err1 (forget w) = err w" "writer1 (forget w) = writer w"
  "numBytesWritten1 (forget w) = numBytesWritten w" "stub1 (forget w) = stub w"
  "forget (w\<lparr>numBytesLeft := k\<rparr>) = forget w"
  by (simp_all add: forget_def)

lemma stub_rawWrite_err [simp]: "stub (rawWrite_err wr w p) = stub w"
  by (simp add: rawWrite_err_def rawWrite_def split: prod.splits)

text \<open>The first three steps of a frame, shared by both writers.\<close>

lemma Write1_forget:
  assumes "err w \<noteq> None \<or> \<not> 0 <s numBytesLeft w"
  shows "Write1 wr (forget w) d a = map_outcome (\<lambda>r. (fst r, forget (snd r))) (Write wr w d a)"
proof (cases "err w = None")
  case False
  then show ?thesis
    by (simp add: Write1_def Write_NewBlock_Append NewBlock_latched Append_latched)
next
  case True
  then have nb: "\<not> 0 <s numBytesLeft w" using assms by simp
  show ?thesis
  proof (cases "fillStub w (of_nat (length d))")
    case Panic
    then show ?thesis using True nb
      by (simp add: Write1_def Write_NewBlock_Append NewBlock_def fillStub1_forget)
  next
    case (Return w1)
    let ?w2 = "rawWrite_err wr w1 (stub w1)"
    show ?thesis
    proof (cases "err ?w2 = None")
      case False
      then show ?thesis using True nb Return
        by (simp add: Write1_def Write_NewBlock_Append NewBlock_def fillStub1_forget
            rawWrite1_err_forget Append_latched Let_def)
    next
      case e2: True
      let ?off = "alignOffset a (numBytesWritten ?w2 + 8)"
      show ?thesis
      proof (cases "fillStub ?w2 ?off")
        case Panic
        then show ?thesis using True nb Return e2
          by (simp add: Write1_def Write_NewBlock_Append NewBlock_def fillStub1_forget
            rawWrite1_err_forget Let_def)
      next
        case r3: (Return w3)
        let ?w4 = "rawWrite_err wr w3 (stub w3)"
        show ?thesis
        proof (cases "err ?w4 = None")
          case False
          then show ?thesis using True nb Return e2 r3
            by (simp add: Write1_def Write_NewBlock_Append NewBlock_def fillStub1_forget
              rawWrite1_err_forget Append_latched Let_def)
        next
          case e4: True
          show ?thesis
          proof (cases "make_bytes ?off")
            case Panic
            then show ?thesis using True nb Return e2 r3 e4
              by (simp add: Write1_def Write_NewBlock_Append NewBlock_def fillStub1_forget
                rawWrite1_err_forget Let_def)
          next
            case r5: (Return padding)
            let ?w5 = "rawWrite_err wr ?w4 padding"
            show ?thesis
            proof (cases "err ?w5 = None")
              case False
              then show ?thesis using True nb Return e2 r3 e4 r5
                by (simp add: Write1_def Write_NewBlock_Append NewBlock_def fillStub1_forget
                  rawWrite1_err_forget Append_latched Let_def)
            next
              case e5: True
              have ap: "Append wr (?w5\<lparr>numBytesLeft := of_nat (length d)\<rparr>) d =
                  (err (rawWrite_err wr (?w5\<lparr>numBytesLeft := of_nat (length d)\<rparr>) d),
                   rawWrite_err wr (?w5\<lparr>numBytesLeft := of_nat (length d)\<rparr>) d)"
                using e5 by (simp add: Append_def Let_def)
              have fw: "forget (rawWrite_err wr (?w5\<lparr>numBytesLeft := of_nat (length d)\<rparr>) d)
                  = rawWrite1_err wr (forget ?w5) d"
                by (simp add: rawWrite1_err_forget [symmetric])
              have ew: "err (rawWrite_err wr (?w5\<lparr>numBytesLeft := of_nat (length d)\<rparr>) d)
                  = err1 (rawWrite1_err wr (forget ?w5) d)"
                by (simp add: fw [symmetric])
              show ?thesis using True nb Return e2 r3 e4 r5 e5
                by (simp add: Write1_def Write_NewBlock_Append NewBlock_def fillStub1_forget
                  rawWrite1_err_forget Let_def ap fw ew)
            qed
          qed
        qed
      qed
    qed
  qed
qed


lemma NewBlock_success_left:
  assumes "NewBlock wr w align len = Return (None, w')" and "err w = None"
  shows "numBytesLeft w' = len"
proof -
  have nb: "\<not> 0 <s numBytesLeft w"
    using assms by (auto simp: NewBlock_def split: if_splits)
  obtain w1 where w1: "fillStub w len = Return w1"
    using assms nb by (cases "fillStub w len") (simp_all add: NewBlock_def)
  let ?w2 = "rawWrite_err wr w1 (stub w1)"
  have e2: "err ?w2 = None"
    using assms nb w1 by (auto simp: NewBlock_def Let_def split: if_splits)
  let ?off = "alignOffset align (numBytesWritten ?w2 + 8)"
  obtain w3 where w3: "fillStub ?w2 ?off = Return w3"
    using assms nb w1 e2 by (cases "fillStub ?w2 ?off") (simp_all add: NewBlock_def Let_def)
  let ?w4 = "rawWrite_err wr w3 (stub w3)"
  have e4: "err ?w4 = None"
    using assms nb w1 e2 w3 by (auto simp: NewBlock_def Let_def split: if_splits)
  obtain padding where p: "make_bytes ?off = Return padding"
    using assms nb w1 e2 w3 e4 by (cases "make_bytes ?off") (simp_all add: NewBlock_def Let_def)
  show ?thesis
    using assms nb w1 e2 w3 e4 p by (auto simp: NewBlock_def Let_def split: if_splits)
qed

lemma Append_closed:
  assumes "honours_contract wr" and "Append wr w d = (e, w')"
    and "numBytesLeft w = of_nat (length d)"
  shows "err w' \<noteq> None \<or> numBytesLeft w' = 0"
proof (cases "err w = None")
  case False
  then show ?thesis using assms(2) by (simp add: Append_def)
next
  case True
  obtain n e0 s where wr: "wr (writer w) d = ((n, e0), s)"
    by (metis surj_pair)
  show ?thesis
  proof (cases "e0 = None")
    case False
    then show ?thesis
      using assms(2,3) True wr
      by (auto simp add: Append_def Let_def rawWrite_err_def rawWrite_def split: if_splits)
  next
    case e: True
    then have "n = of_nat (length d)"
      using assms(1) wr unfolding honours_contract_def by blast
    then show ?thesis
      using assms(2,3) True wr e
      by (auto simp add: Append_def Let_def rawWrite_err_def rawWrite_def split: if_splits)
  qed
qed

lemma Write_closed:
  assumes "honours_contract wr" and "Write wr w d a = Return (e, w')"
  shows "err w' \<noteq> None \<or> \<not> 0 <s numBytesLeft w'"
proof -
  obtain e1 w1 where nb: "NewBlock wr w a (of_nat (length d)) = Return (e1, w1)"
    and ap: "Append wr w1 d = (e, w')"
    using assms(2) unfolding Write_NewBlock_Append
    by (cases "NewBlock wr w a (of_nat (length d))") auto
  have e1: "err w1 = e1" using nb by (rule NewBlock_err)
  show ?thesis
  proof (cases "e1 = None")
    case False
    then show ?thesis using ap e1 by (simp add: Append_latched)
  next
    case True
    have "numBytesLeft w1 = of_nat (length d)"
    proof (cases "err w = None")
      case False
      then show ?thesis using nb True by (auto simp add: NewBlock_latched)
    next
      case ew: True
      show ?thesis using nb True ew by (simp add: NewBlock_success_left)
    qed
    then have "err w' \<noteq> None \<or> numBytesLeft w' = 0"
      using assms(1) ap by (rule Append_closed [rotated 2])
    then show ?thesis by (auto simp: word_sless_alt)
  qed
qed

lemma WriteAll1_forget:
  assumes "honours_contract wr"
  shows "err w \<noteq> None \<or> \<not> 0 <s numBytesLeft w \<Longrightarrow>
    WriteAll1 wr (forget w) ws = map_outcome (\<lambda>r. (fst r, forget (snd r))) (WriteAll wr w ws)"
proof (induction ws arbitrary: w)
  case Nil
  then show ?case by simp
next
  case (Cons x xs)
  note sim = Write1_forget [OF Cons.prems, of wr "fst x" "snd x"]
  show ?case
  proof (cases "Write wr w (fst x) (snd x)")
    case Panic
    then show ?thesis using sim by simp
  next
    case (Return r)
    obtain e w' where r: "r = (e, w')" by (cases r)
    have "err w' \<noteq> None \<or> \<not> 0 <s numBytesLeft w'"
      using Write_closed [OF assms, of w "fst x" "snd x" e w'] Return r by simp
    then have ih: "WriteAll1 wr (forget w') xs =
        map_outcome (\<lambda>r. (fst r, forget (snd r))) (WriteAll wr w' xs)"
      by (rule Cons.IH)
    show ?thesis
      using sim Return r ih by (cases "WriteAll wr w' xs") simp_all
  qed
qed

lemma honours_contract_buf: "honours_contract buf_write"
  by (auto simp: honours_contract_def buf_write_def)

lemma honours_contract_full: "honours_contract (full_write cap)"
  by (auto simp: honours_contract_def full_write_def split: if_splits)

text \<open>
  C9 (one-shot and incremental writing). On every writer state and every sink, \<open>Write\<close>
  returns the same error and leaves the same writer state (hence the same sink) as
  \<open>NewBlock\<close> with the data's length followed by \<open>Append\<close> of the data. And the
  one-shot writer of \<open>byteblock.go\<close>, run from a fresh writer over any list of
  \<open>(payload, align)\<close> pairs on a sink that honours the \<open>io.Writer\<close> contract,
  returns the same errors and ends with the same sink, byte counter, latched error and
  stub as the incremental one.
\<close>

theorem write_equivalence:
  "Write wr w d a =
     and_then (NewBlock wr w a (of_nat (length d))) (\<lambda>r. Return (Append wr (snd r) d)) \<and>
   (honours_contract wr \<longrightarrow>
      WriteAll1 wr (NewByteBlockWriter1 s) ws =
        map_outcome (\<lambda>r. (fst r, forget (snd r))) (WriteAll wr (NewByteBlockWriter s) ws))"
proof (intro conjI impI)
  show "Write wr w d a =
     and_then (NewBlock wr w a (of_nat (length d))) (\<lambda>r. Return (Append wr (snd r) d))"
    by (rule Write_NewBlock_Append)
next
  assume c: "honours_contract wr"
  have f: "NewByteBlockWriter1 s = forget (NewByteBlockWriter s)"
    by (simp add: NewByteBlockWriter1_def NewByteBlockWriter_def forget_def)
  have "err (NewByteBlockWriter s) \<noteq> None \<or> \<not> 0 <s numBytesLeft (NewByteBlockWriter s)"
    by (simp add: NewByteBlockWriter_def word_sless_alt)
  then show "WriteAll1 wr (NewByteBlockWriter1 s) ws =
        map_outcome (\<lambda>r. (fst r, forget (snd r))) (WriteAll wr (NewByteBlockWriter s) ws)"
    unfolding f by (rule WriteAll1_forget [OF c])
qed


theorem write_equivalence_witness:
  "honours_contract (buf_write) \<and>
   map_outcome (\<lambda>r. (fst r, writer (snd r)))
     (WriteAll buf_write (NewByteBlockWriter []) [([104, 101], 7)]) =
   Return ([None], [2,0,0,0,0,0,0,0, 5,0,0,0,0,0,0,0, 0,0,0,0,0, 104, 101]) \<and>
   WriteAll1 buf_write (NewByteBlockWriter1 []) [([104, 101], 7)] =
     map_outcome (\<lambda>r. (fst r, forget (snd r)))
       (WriteAll buf_write (NewByteBlockWriter []) [([104, 101], 7)])"
proof -
  have e: "map_outcome (\<lambda>r. (fst r, writer (snd r)))
     (WriteAll buf_write (NewByteBlockWriter []) [([104, 101], 7)]) =
   Return ([None], [2,0,0,0,0,0,0,0, 5,0,0,0,0,0,0,0, 0,0,0,0,0, 104, 101])"
    by code_simp
  show ?thesis
    using write_equivalence [of buf_write _ _ _ "[]" "[([104, 101], 7)]"] honours_contract_buf e
    by blast
qed

section \<open>Latched errors\<close>

lemma Slice_latched: "serr r \<noteq> None \<Longrightarrow> Slice r = Return ((None, serr r), r)"
  by (simp add: Slice_def)

lemma Write_latched: "err w \<noteq> None \<Longrightarrow> Write wr w d a = Return (err w, w)"
  by (simp add: Write_NewBlock_Append NewBlock_latched Append_latched)

lemma Write1_latched: "err1 w \<noteq> None \<Longrightarrow> Write1 wr w d a = Return (err1 w, w)"
  by (simp add: Write1_def)

lemma Write_err: "Write wr w d a = Return (e, w') \<Longrightarrow> err w' = e"
  unfolding Write_NewBlock_Append
  by (cases "NewBlock wr w a (of_nat (length d))") (auto dest: Append_err)

lemma Write1_err: "Write1 wr w d a = Return (e, w') \<Longrightarrow> err1 w' = e"
  by (auto simp: Write1_def Let_def and_then_Return_iff split: if_splits)

text \<open>
  C2 (sticky errors) fails in the slicer. \<open>Slice\<close> latches the error of the two header
  reads and of the padding skip, but returns the result of the payload read without
  storing its error. The buffer below is what \<open>Write\<close> produces for an 18-byte payload,
  cut one byte short. The first \<open>Slice\<close> returns \<open>ErrNotEnoughBytes\<close> and leaves the
  slicer with no error and the cursor after the header; the second \<open>Slice\<close> reads the
  payload bytes as a header and returns the byte 65 as a block, with no error.
\<close>

theorem Slice_payload_error_not_latched:
  "map_outcome (\<lambda>r. take 33 (writer (snd r)))
     (Write buf_write (NewByteBlockWriter [])
        [1, 0, 0, 0, 0, 0, 0, 0, 0, 0, 0, 0, 0, 0, 0, 0, 65, 66] 0) =
     Return [18, 0, 0, 0, 0, 0, 0, 0, 0, 0, 0, 0, 0, 0, 0, 0,
             1, 0, 0, 0, 0, 0, 0, 0, 0, 0, 0, 0, 0, 0, 0, 0, 65] \<and>
   Slice (NewByteBlockSlicer
            [18, 0, 0, 0, 0, 0, 0, 0, 0, 0, 0, 0, 0, 0, 0, 0,
             1, 0, 0, 0, 0, 0, 0, 0, 0, 0, 0, 0, 0, 0, 0, 0, 65]) =
     Return ((None, Some ErrNotEnoughBytes),
       \<lparr>data = [18, 0, 0, 0, 0, 0, 0, 0, 0, 0, 0, 0, 0, 0, 0, 0,
                1, 0, 0, 0, 0, 0, 0, 0, 0, 0, 0, 0, 0, 0, 0, 0, 65],
         numBytesSliced = 16, serr = None\<rparr>) \<and>
   Slice \<lparr>data = [18, 0, 0, 0, 0, 0, 0, 0, 0, 0, 0, 0, 0, 0, 0, 0,
                1, 0, 0, 0, 0, 0, 0, 0, 0, 0, 0, 0, 0, 0, 0, 0, 65],
         numBytesSliced = 16, serr = None\<rparr> =
     Return ((Some [65], None),
       \<lparr>data = [18, 0, 0, 0, 0, 0, 0, 0, 0, 0, 0, 0, 0, 0, 0, 0,
                1, 0, 0, 0, 0, 0, 0, 0, 0, 0, 0, 0, 0, 0, 0, 0, 65],
         numBytesSliced = 33, serr = None\<rparr>)"
  by code_simp

text \<open>
  C10 (slicer totality on arbitrary buffers) fails. \<open>rawSlice\<close> only tests the upper
  end against the length. On a 16-byte buffer whose offset field is \<open>-1\<close> the test
  \<open>16 + (-1) > 16\<close> is false, the slice expression \<open>data[16:15]\<close> is out of range, and
  \<open>Slice\<close> panics instead of returning.
\<close>

theorem Slice_negative_offset_panics:
  "Slice (NewByteBlockSlicer
            [0, 0, 0, 0, 0, 0, 0, 0, 255, 255, 255, 255, 255, 255, 255, 255]) = Panic"
  by code_simp


section \<open>Writing whole blocks to a buffer\<close>

lemma sle_of_nat64: "n < 2 ^ 63 \<Longrightarrow> 0 \<le>s (of_nat n :: int64)"
  by (simp add: word_sle_eq sint_of_nat64)

lemma of_nat_add16: "(of_nat n :: int64) + 16 = of_nat (n + 16)"
  by simp

lemma unat_nonneg64:
  assumes "0 \<le>s (x :: int64)"
  shows "int (unat x) = sint x"
proof -
  have s: "0 \<le> sint x" "sint x < 2 ^ LENGTH(64)"
    using assms sint_range64 [of x] by (simp_all add: word_sle_eq)
  have "uint (word_of_int (sint x) :: int64) = take_bit LENGTH(64) (sint x)"
    by (rule uint_word_of_int_eq)
  also have "\<dots> = sint x"
    using s by (rule take_bit_int_eq_self)
  finally have u: "uint (word_of_int (sint x) :: int64) = sint x" .
  have "(word_of_int (sint x) :: int64) = x"
    by (simp only: of_int_sint scast_id)
  then have "uint x = sint x"
    using u by (rule subst)
  then show ?thesis
    by (simp only: uint_nat)
qed

lemma NewBlock_buf:
  assumes "err w = None" and "\<not> 0 <s numBytesLeft w" and "length (stub w) = 8"
    and "numBytesWritten w = of_nat (length (writer w))"
    and "length (writer w) + 16 < 2 ^ 63"
  shows "NewBlock buf_write w align len =
     Return (None,
       w\<lparr>writer := writer w @ le_bytes len
                 @ le_bytes (alignOffset align (of_nat (length (writer w)) + 16))
                 @ replicate (unat (alignOffset align (of_nat (length (writer w)) + 16))) 0,
         numBytesWritten := of_nat (length (writer w)) + 16
                 + alignOffset align (of_nat (length (writer w)) + 16),
         numBytesLeft := len,
         stub := le_bytes (alignOffset align (of_nat (length (writer w)) + 16))\<rparr>)"
proof -
  let ?off = "alignOffset align (of_nat (length (writer w)) + 16)"
  have "0 \<le>s (of_nat (length (writer w)) :: int64) + 16"
    unfolding of_nat_add16 using assms(5) by (rule sle_of_nat64)
  then have off: "0 \<le>s ?off" by (rule alignOffset_nonneg)
  have e: "(of_nat (length (writer w)) :: int64) + 8 + 8 = of_nat (length (writer w)) + 16"
    by simp
  show ?thesis
    using assms off
    by (simp add: NewBlock_def fillStub_eq rawWrite_err_def rawWrite_def buf_write_def
        make_bytes_nonneg e Let_def)
qed

lemma Write_buf:
  assumes "err w = None" and "\<not> 0 <s numBytesLeft w" and "length (stub w) = 8"
    and "numBytesWritten w = of_nat (length (writer w))"
    and "length (writer w) + 16 < 2 ^ 63"
  shows "Write buf_write w d a =
     Return (None,
       w\<lparr>writer := writer w @ frame (length (writer w)) d a,
         numBytesWritten := of_nat (length (writer w) + length (frame (length (writer w)) d a)),
         numBytesLeft := 0,
         stub := le_bytes (alignOffset a (of_nat (length (writer w)) + 16))\<rparr>)"
  unfolding Write_NewBlock_Append NewBlock_buf [OF assms]
  using assms(1)
  by (simp add: Append_def rawWrite_err_def rawWrite_def buf_write_def frame_def Let_def
      word_sless_alt)


lemma length_frame:
  "length (frame pos d a) = 16 + unat (alignOffset a (of_nat pos + 16)) + length d"
  by (simp add: frame_def Let_def)

lemma WriteAll_frames:
  assumes "err w = None" and "\<not> 0 <s numBytesLeft w" and "length (stub w) = 8"
    and "numBytesWritten w = of_nat (length (writer w))"
    and "length (writer w) + length (frames (length (writer w)) ws) < 2 ^ 63"
  shows "\<exists>w'. WriteAll buf_write w ws = Return (replicate (length ws) None, w') \<and>
           writer w' = writer w @ frames (length (writer w)) ws \<and>
           err w' = None \<and> \<not> 0 <s numBytesLeft w' \<and> length (stub w') = 8 \<and>
           numBytesWritten w' = of_nat (length (writer w'))"
  using assms
proof (induction ws arbitrary: w)
  case Nil
  then show ?case by simp
next
  case (Cons x xs)
  let ?f = "frame (length (writer w)) (fst x) (snd x)"
  let ?w1 = "w\<lparr>writer := writer w @ ?f,
         numBytesWritten := of_nat (length (writer w) + length ?f),
         numBytesLeft := 0,
         stub := le_bytes (alignOffset (snd x) (of_nat (length (writer w)) + 16))\<rparr>"
  have len: "length (writer w) + 16 < 2 ^ 63"
    using Cons.prems(5) by (simp add: length_frame)
  have wr: "Write buf_write w (fst x) (snd x) = Return (None, ?w1)"
    using Cons.prems(1-4) len by (rule Write_buf)
  have "\<exists>w'. WriteAll buf_write ?w1 xs = Return (replicate (length xs) None, w') \<and>
           writer w' = writer ?w1 @ frames (length (writer ?w1)) xs \<and>
           err w' = None \<and> \<not> 0 <s numBytesLeft w' \<and> length (stub w') = 8 \<and>
           numBytesWritten w' = of_nat (length (writer w'))"
  proof (rule Cons.IH)
    show "err ?w1 = None" using Cons.prems(1) by simp
    show "\<not> 0 <s numBytesLeft ?w1" by (simp add: word_sless_alt)
    show "length (stub ?w1) = 8" by simp
    show "numBytesWritten ?w1 = of_nat (length (writer ?w1))" by simp
    show "length (writer ?w1) + length (frames (length (writer ?w1)) xs) < 2 ^ 63"
      using Cons.prems(5) by (simp add: add.assoc)
  qed
  then obtain w' where w': "WriteAll buf_write ?w1 xs = Return (replicate (length xs) None, w')"
      "writer w' = writer ?w1 @ frames (length (writer ?w1)) xs"
      "err w' = None" "\<not> 0 <s numBytesLeft w'" "length (stub w') = 8"
      "numBytesWritten w' = of_nat (length (writer w'))"
    by blast
  have "WriteAll buf_write w (x # xs) = Return (replicate (length (x # xs)) None, w')"
    using wr w'(1) by simp
  moreover have "writer w' = writer w @ frames (length (writer w)) (x # xs)"
    using w'(2) by simp
  ultimately show ?case using w'(3-6) by blast
qed

section \<open>Slicing whole frames\<close>

lemma unat_of_nat64: "n < 2 ^ 63 \<Longrightarrow> unat (of_nat n :: int64) = n"
  by (simp add: unat_of_nat take_bit_nat_eq_self)

lemma rawSlice_ok:
  assumes "length b < 2 ^ 63" and "c + m \<le> length b"
  shows "rawSlice \<lparr>data = b, numBytesSliced = of_nat c, serr = e\<rparr> (of_nat m) =
     Return ((Some (take m (drop c b)), None),
             \<lparr>data = b, numBytesSliced = of_nat (c + m), serr = e\<rparr>)"
proof -
  have c: "c < 2 ^ 63" "c + m < 2 ^ 63" using assms by linarith+
  have s: "sint (of_nat c :: int64) = int c"
    "sint ((of_nat c :: int64) + of_nat m) = int c + int m"
    "sint (of_nat (length b) :: int64) = int (length b)"
    using c assms(1) sint_of_nat64 [of c] sint_of_nat64 [of "c + m"] sint_of_nat64 [of "length b"]
    by simp_all
  have u: "unat (of_nat c :: int64) = c" "unat ((of_nat c :: int64) + of_nat m) = c + m"
    using c unat_of_nat64 [of c] unat_of_nat64 [of "c + m"] by simp_all
  show ?thesis
    using assms(2) by (simp add: rawSlice_def Let_def word_sle_eq word_sless_alt s u)
qed

lemma rawSlice_short:
  assumes "length b < 2 ^ 63" and "length b < c + m" and "c + m < 2 ^ 63"
  shows "rawSlice \<lparr>data = b, numBytesSliced = of_nat c, serr = e\<rparr> (of_nat m) =
     Return ((None, Some ErrNotEnoughBytes),
             \<lparr>data = b, numBytesSliced = of_nat c, serr = e\<rparr>)"
proof -
  have s: "sint ((of_nat c :: int64) + of_nat m) = int c + int m"
    "sint (of_nat (length b) :: int64) = int (length b)"
    using assms sint_of_nat64 [of "c + m"] sint_of_nat64 [of "length b"] by simp_all
  show ?thesis
    using assms(2) by (simp add: rawSlice_def Let_def word_sle_eq word_sless_alt s)
qed


lemma Slice_frame:
  assumes b: "b = pre @ le_bytes (of_nat (length d)) @ le_bytes off @ pad @ d @ post"
    and pad: "length pad = unat off" and len: "length b < 2 ^ 63"
  shows "Slice \<lparr>data = b, numBytesSliced = of_nat (length pre), serr = None\<rparr> =
     Return ((Some d, None),
       \<lparr>data = b, numBytesSliced = of_nat (length pre + 16 + length pad + length d),
         serr = None\<rparr>)"
proof -
  let ?c = "length pre"
  have lb: "length b = ?c + 16 + length pad + length d + length post"
    by (simp add: b)
  have g: "\<not> (of_nat (length b) :: int64) \<le>s of_nat ?c"
    using len lb sint_of_nat64 [of "length b"] sint_of_nat64 [of ?c]
    by (simp add: word_sle_eq)
  have r1: "rawSlice \<lparr>data = b, numBytesSliced = of_nat ?c, serr = None\<rparr> (of_nat 8) =
      Return ((Some (le_bytes (of_nat (length d))), None),
              \<lparr>data = b, numBytesSliced = of_nat (?c + 8), serr = None\<rparr>)"
    using rawSlice_ok [of b ?c 8 None] len lb by (simp add: b)
  have r2: "rawSlice \<lparr>data = b, numBytesSliced = of_nat (?c + 8), serr = None\<rparr> (of_nat 8) =
      Return ((Some (le_bytes off), None),
              \<lparr>data = b, numBytesSliced = of_nat (?c + 8 + 8), serr = None\<rparr>)"
    using rawSlice_ok [of b "?c + 8" 8 None] len lb by (simp add: b)
  have r3: "rawSlice \<lparr>data = b, numBytesSliced = of_nat (?c + 8 + 8), serr = None\<rparr>
        (of_nat (length pad)) =
      Return ((Some pad, None),
              \<lparr>data = b, numBytesSliced = of_nat (?c + 8 + 8 + length pad), serr = None\<rparr>)"
    using rawSlice_ok [of b "?c + 8 + 8" "length pad" None] len lb by (simp add: b)
  have r4: "rawSlice \<lparr>data = b, numBytesSliced = of_nat (?c + 8 + 8 + length pad), serr = None\<rparr>
        (of_nat (length d)) =
      Return ((Some d, None),
              \<lparr>data = b, numBytesSliced = of_nat (?c + 8 + 8 + length pad + length d),
                serr = None\<rparr>)"
    using rawSlice_ok [of b "?c + 8 + 8 + length pad" "length d" None] len lb by (simp add: b)
  have o: "of_nat (length pad) = off"
    by (simp add: pad)
  show ?thesis
    unfolding Slice_def using g r1 r2 r3 r4 o
    by (simp add: readInt64_le_bytes Let_def)
qed


lemma Slice_whole_frame:
  assumes "b = pre @ frame (length pre) d a @ post" and "length b < 2 ^ 63"
  shows "Slice \<lparr>data = b, numBytesSliced = of_nat (length pre), serr = None\<rparr> =
     Return ((Some d, None),
       \<lparr>data = b, numBytesSliced = of_nat (length (pre @ frame (length pre) d a)),
         serr = None\<rparr>)"
proof -
  let ?off = "alignOffset a (of_nat (length pre) + 16)"
  have "b = pre @ le_bytes (of_nat (length d)) @ le_bytes ?off @ replicate (unat ?off) 0 @ d @ post"
    using assms(1) by (simp add: frame_def Let_def)
  then have "Slice \<lparr>data = b, numBytesSliced = of_nat (length pre), serr = None\<rparr> =
     Return ((Some d, None),
       \<lparr>data = b,
         numBytesSliced = of_nat (length pre + 16 + length (replicate (unat ?off) (0::byte)) + length d),
         serr = None\<rparr>)"
    using assms(2) by (intro Slice_frame) simp_all
  then show ?thesis
    by (simp add: length_frame add.assoc)
qed

lemma SliceN_frames:
  assumes "b = pre @ frames (length pre) ws @ post" and "length b < 2 ^ 63"
  shows "SliceN (length ws) \<lparr>data = b, numBytesSliced = of_nat (length pre), serr = None\<rparr> =
     Return (map (\<lambda>x. (Some (fst x), None)) ws,
       \<lparr>data = b, numBytesSliced = of_nat (length (pre @ frames (length pre) ws)),
         serr = None\<rparr>)"
  using assms
proof (induction ws arbitrary: pre)
  case Nil
  then show ?case by simp
next
  case (Cons x xs)
  let ?f = "frame (length pre) (fst x) (snd x)"
  have b: "b = pre @ ?f @ (frames (length (pre @ ?f)) xs @ post)"
    using Cons.prems(1) by simp
  have s: "Slice \<lparr>data = b, numBytesSliced = of_nat (length pre), serr = None\<rparr> =
     Return ((Some (fst x), None),
       \<lparr>data = b, numBytesSliced = of_nat (length (pre @ ?f)), serr = None\<rparr>)"
    using b Cons.prems(2) by (rule Slice_whole_frame)
  have b': "b = (pre @ ?f) @ frames (length (pre @ ?f)) xs @ post"
    using b by simp
  note ih = Cons.IH [OF b' Cons.prems(2)]
  have e: "(pre @ ?f) @ frames (length (pre @ ?f)) xs = pre @ frames (length pre) (x # xs)"
    by simp
  show ?case
    unfolding length_Cons SliceN.simps s using ih unfolding e by simp
qed

lemma Slice_at_end:
  assumes "length b < 2 ^ 63"
  shows "Slice \<lparr>data = b, numBytesSliced = of_nat (length b), serr = None\<rparr> =
     Return ((None, Some EOF), \<lparr>data = b, numBytesSliced = of_nat (length b), serr = None\<rparr>)"
  by (simp add: Slice_def)

section \<open>Round trip\<close>

text \<open>
  C1 (round trip). For every list of \<open>(payload, align)\<close> pairs whose stream of frames is
  shorter than \<open>2^63\<close> bytes (the length of a Go slice is a non-negative \<open>int\<close>):
  writing them in order with \<open>Write\<close> into an empty buffer returns no error and leaves
  exactly that stream in the buffer; slicing the buffer then returns the same payloads
  in the same order, each without error, and the call after the last payload returns
  \<open>io.EOF\<close>.
\<close>

theorem round_trip:
  assumes "length (frames 0 ws) < 2 ^ 63"
  shows "\<exists>w r. WriteAll buf_write (NewByteBlockWriter []) ws = Return (replicate (length ws) None, w) \<and>
           writer w = frames 0 ws \<and>
           SliceN (length ws) (NewByteBlockSlicer (writer w)) =
             Return (map (\<lambda>x. (Some (fst x), None)) ws, r) \<and>
           Slice r = Return ((None, Some EOF), r)"
proof -
  let ?w0 = "NewByteBlockWriter ([] :: byte list)"
  have "\<exists>w'. WriteAll buf_write ?w0 ws = Return (replicate (length ws) None, w') \<and>
           writer w' = writer ?w0 @ frames (length (writer ?w0)) ws \<and>
           err w' = None \<and> \<not> 0 <s numBytesLeft w' \<and> length (stub w') = 8 \<and>
           numBytesWritten w' = of_nat (length (writer w'))"
    using assms by (intro WriteAll_frames) (simp_all add: NewByteBlockWriter_def word_sless_alt)
  then obtain w where w: "WriteAll buf_write ?w0 ws = Return (replicate (length ws) None, w)"
    and ww: "writer w = frames 0 ws"
    by (auto simp: NewByteBlockWriter_def)
  let ?b = "frames 0 ws"
  let ?r = "\<lparr>data = ?b, numBytesSliced = of_nat (length ?b), serr = None\<rparr>"
  have "SliceN (length ws) \<lparr>data = ?b, numBytesSliced = of_nat (length ([] :: byte list)), serr = None\<rparr> =
     Return (map (\<lambda>x. (Some (fst x), None)) ws,
       \<lparr>data = ?b, numBytesSliced = of_nat (length ([] @ frames (length ([] :: byte list)) ws)),
         serr = None\<rparr>)"
    using assms by (intro SliceN_frames [where post = "[]"]) simp_all
  then have s: "SliceN (length ws) (NewByteBlockSlicer ?b) =
      Return (map (\<lambda>x. (Some (fst x), None)) ws, ?r)"
    by (simp add: NewByteBlockSlicer_def)
  have "Slice ?r = Return ((None, Some EOF), ?r)"
    using assms by (rule Slice_at_end)
  then show ?thesis using w ww s by auto
qed

lemma hello_len: "length (frames 0 [([104, 101, 108, 108, 111], 0), ([119, 111, 114, 108, 100], 4),
        ([104, 101, 108, 108, 111], 8), ([119, 111, 114, 108, 100], 16)]) = 101"
  by code_simp

theorem round_trip_witness:
  "\<exists>w r. WriteAll buf_write (NewByteBlockWriter [])
        [([104, 101, 108, 108, 111], 0), ([119, 111, 114, 108, 100], 4),
         ([104, 101, 108, 108, 111], 8), ([119, 111, 114, 108, 100], 16)] =
        Return ([None, None, None, None], w) \<and>
      writer w = frames 0 [([104, 101, 108, 108, 111], 0), ([119, 111, 114, 108, 100], 4),
         ([104, 101, 108, 108, 111], 8), ([119, 111, 114, 108, 100], 16)] \<and>
      SliceN 4 (NewByteBlockSlicer (writer w)) =
        Return ([(Some [104, 101, 108, 108, 111], None), (Some [119, 111, 114, 108, 100], None),
                 (Some [104, 101, 108, 108, 111], None), (Some [119, 111, 114, 108, 100], None)], r) \<and>
      Slice r = Return ((None, Some EOF), r)"
proof -
  let ?ws = "[([104, 101, 108, 108, 111], 0), ([119, 111, 114, 108, 100], 4),
         ([104, 101, 108, 108, 111], 8), ([119, 111, 114, 108, 100 :: byte], 16 :: int64)]"
  have "length (frames 0 ?ws) < 2 ^ 63"
    unfolding hello_len by simp
  from round_trip [OF this] show ?thesis
    by (simp add: numeral_eq_Suc del: WriteAll.simps SliceN.simps frames.simps)
qed

end
